theory Spec2Isabelle
  imports Complex_Main "HOL-Library.Word"
begin

unbundle bit_operations_syntax

section \<open>Exceptions (src/utils/exceptions.py)\<close>

text \<open>
  Every exception class of the module is a constructor; \<open>ValueError\<close>,
  \<open>ZeroDivisionError\<close> and \<open>OverflowError\<close> are the Python and numpy built-ins the
  audio helpers can raise.
  A function that may raise returns \<open>error + 'a\<close>, the error on the left.
\<close>

datatype error =
    ASRCoreError
  | ConfigurationError
  | EngineError
  | EngineNotFoundError
  | EngineInitializationError
  | TranscriptionError
  | PreprocessorError
  | PreprocessorNotFoundError
  | AudioProcessingError
  | APIError
  | InvalidAudioFormatError
  | ServiceUnavailableError
  | ValueError
  | ZeroDivisionError
  | OverflowError

type_synonym byte = "8 word"
type_synonym bytes = "byte list"

section \<open>numpy arrays\<close>

text \<open>
  A numpy array is its element buffer in C order together with its shape: one-dimensional
  (\<open>ncols = None\<close>) or two-dimensional with the given number of columns, the number
  of rows being \<open>length flat div c\<close>. The element type is the dtype: \<open>int16\<close> is a
  16-bit word read in two's complement, \<open>float32\<close> is the 32-bit IEEE pattern, and
  \<open>float64\<close> is a real number, with \<open>None\<close> for NaN.
\<close>

type_synonym f64 = "real option"

record 'a ndarray =
  ncols :: "nat option"
  flat :: "'a list"

datatype array =
    Int16Array "16 word ndarray"
  | Float32Array "32 word ndarray"
  | Float64Array "f64 ndarray"

text \<open>\<open>len(a)\<close>: the size of the first axis.\<close>

definition len :: "'a ndarray \<Rightarrow> nat" where
  "len a = (case ncols a of None \<Rightarrow> length (flat a) | Some c \<Rightarrow> length (flat a) div c)"

text \<open>The rows of a two-dimensional array with c columns.\<close>

definition rows :: "nat \<Rightarrow> 'a list \<Rightarrow> 'a list list" where
  "rows c xs = map (\<lambda>i. take c (drop (i * c) xs)) [0..<length xs div c]"

subsection \<open>\<open>np.frombuffer\<close> and \<open>tobytes\<close>, little-endian\<close>

fun int16_le :: "bytes \<Rightarrow> 16 word list" where
  "int16_le (b0 # b1 # rest) = word_cat b1 b0 # int16_le rest"
| "int16_le _ = []"

fun float32_le :: "bytes \<Rightarrow> 32 word list" where
  "float32_le (b0 # b1 # b2 # b3 # rest) =
     word_cat (word_cat b3 b2 :: 16 word) (word_cat b1 b0 :: 16 word) # float32_le rest"
| "float32_le _ = []"

text \<open>\<open>np.frombuffer\<close> raises ValueError when the buffer is not a whole number of elements.\<close>

definition frombuffer_int16 :: "bytes \<Rightarrow> error + 16 word list" where
  "frombuffer_int16 b = (if length b mod 2 \<noteq> 0 then Inl ValueError else Inr (int16_le b))"

definition frombuffer_float32 :: "bytes \<Rightarrow> error + 32 word list" where
  "frombuffer_float32 b = (if length b mod 4 \<noteq> 0 then Inl ValueError else Inr (float32_le b))"

definition tobytes_int16 :: "16 word list \<Rightarrow> bytes" where
  "tobytes_int16 ws = concat (map (\<lambda>w. [ucast w, ucast (drop_bit 8 w)]) ws)"

definition tobytes_float32 :: "32 word list \<Rightarrow> bytes" where
  "tobytes_float32 ws =
     concat (map (\<lambda>w. [ucast w, ucast (drop_bit 8 w), ucast (drop_bit 16 w), ucast (drop_bit 24 w)]) ws)"

subsection \<open>\<open>astype\<close>\<close>

text \<open>
  A float becomes an integer by truncation towards zero. For NaN and for values outside
  the target range the C conversion is not defined by the language; the model takes the
  result on x86-64, where the conversion goes through a 32-bit integer: NaN and values
  outside the 32-bit range give 0, the others keep their low 16 bits.
\<close>

definition trunc :: "real \<Rightarrow> int" where
  "trunc x = (if 0 \<le> x then \<lfloor>x\<rfloor> else \<lceil>x\<rceil>)"

definition f64_to_int16 :: "f64 \<Rightarrow> 16 word" where
  "f64_to_int16 v =
     (case v of
        None \<Rightarrow> 0
      | Some x \<Rightarrow> if - (2 ^ 31) \<le> trunc x \<and> trunc x < 2 ^ 31 then word_of_int (trunc x) else 0)"

definition int16_to_f64 :: "16 word \<Rightarrow> f64" where
  "int16_to_f64 w = Some (real_of_int (sint w))"

text \<open>The value of an IEEE single; infinities are read as NaN.\<close>

definition f32_value :: "32 word \<Rightarrow> f64" where
  "f32_value w =
     (let e = uint (drop_bit 23 w AND 255);
          m = uint (w AND 0x7FFFFF);
          s = (if bit w 31 then - 1 else 1)
      in if e = 255 then None
         else if e = 0 then Some (s * real_of_int m * 2 powi (- 149))
         else Some (s * real_of_int (2 ^ 23 + m) * 2 powi (e - 150)))"

subsection \<open>Rounding to a float\<close>

text \<open>
  A double operation is the exact operation on reals followed by \<open>float64_round\<close>,
  the nearest number with a 53-bit significand, ties to even. The exponent range of
  doubles is not part of \<open>float64_round\<close>: where Python raises on a number too large
  for a double (\<open>int_to_float\<close>) the model does so explicitly, and the infinities of
  a division by zero are treated by cases where they arise. \<open>np.exp\<close> is taken to be
  correctly rounded.
\<close>

text \<open>Python's \<open>int.bit_length\<close>.\<close>

fun bit_length :: "nat \<Rightarrow> nat" where
  "bit_length 0 = 0"
| "bit_length (Suc n) = Suc (bit_length (Suc n div 2))"

text \<open>For positive x, the e with \<open>2 ^ e \<le> x < 2 ^ (e + 1)\<close>.\<close>

definition float_exponent :: "real \<Rightarrow> int" where
  "float_exponent x =
     (if 1 \<le> x then int (bit_length (nat \<lfloor>x\<rfloor>)) - 1
      else - int (bit_length (nat (\<lceil>1 / x\<rceil> - 1))))"

definition round_half_even :: "real \<Rightarrow> int" where
  "round_half_even x =
     (let f = \<lfloor>x\<rfloor>; d = x - of_int f
      in if d < 1 / 2 then f else if 1 / 2 < d then f + 1
         else if even f then f else f + 1)"

definition float64_round :: "real \<Rightarrow> real" where
  "float64_round x =
     (if x = 0 then 0
      else (let u = 2 powi (float_exponent \<bar>x\<bar> - 52)
            in sgn x * real_of_int (round_half_even (\<bar>x\<bar> / u)) * u))"

text \<open>
  Python's conversion of an int to a float, as in \<open>i * 0.001\<close>: OverflowError when the
  nearest double would lie beyond the largest one, \<open>2 ^ 1024 - 2 ^ 971\<close>.
\<close>

definition int_to_float :: "int \<Rightarrow> error + real" where
  "int_to_float i =
     (if 2 ^ 1024 - 2 ^ 970 \<le> \<bar>i\<bar> then Inl OverflowError
      else Inr (float64_round (real_of_int i)))"

text \<open>The IEEE single nearest to a real number (ties to even), overflowing to infinity.\<close>

definition float32_bits :: "real \<Rightarrow> 32 word" where
  "float32_bits x =
     (let a = \<bar>x\<bar>;
          s = (if x < 0 then 0x80000000 else 0)
      in if a = 0 then 0
         else (let e = max (float_exponent a) (- 126);
                   m = round_half_even (a * 2 powi (23 - e));
                   field = (e + 126) * 2 ^ 23 + m
               in if 255 * 2 ^ 23 \<le> field then s + 0x7F800000
                  else s + word_of_int field))"

definition f64_to_float32 :: "f64 \<Rightarrow> 32 word" where
  "f64_to_float32 v = (case v of None \<Rightarrow> 0x7FC00000 | Some x \<Rightarrow> float32_bits x)"

fun astype_int16 :: "array \<Rightarrow> 16 word ndarray" where
  "astype_int16 (Int16Array a) = a"
| "astype_int16 (Float32Array a) =
     \<lparr>ncols = ncols a, flat = map (f64_to_int16 \<circ> f32_value) (flat a)\<rparr>"
| "astype_int16 (Float64Array a) = \<lparr>ncols = ncols a, flat = map f64_to_int16 (flat a)\<rparr>"

fun astype_float32 :: "array \<Rightarrow> 32 word ndarray" where
  "astype_float32 (Int16Array a) =
     \<lparr>ncols = ncols a, flat = map (f64_to_float32 \<circ> int16_to_f64) (flat a)\<rparr>"
| "astype_float32 (Float32Array a) = a"
| "astype_float32 (Float64Array a) = \<lparr>ncols = ncols a, flat = map f64_to_float32 (flat a)\<rparr>"

section \<open>PCM codec (src/utils/audio.py)\<close>

text \<open>
  The part of \<open>bytes_to_numpy\<close> after \<open>np.frombuffer\<close>: with more than one channel
  the samples that do not fill a frame are cut off the end
  (\<open>audio_array[:-(len(audio_array) % channels)]\<close>) and the array is reshaped to
  \<open>(-1, channels)\<close>.
\<close>

definition reshape_channels :: "'a list \<Rightarrow> int \<Rightarrow> 'a ndarray" where
  "reshape_channels audio_array channels =
     (if channels > 1 then
        (let c = nat channels;
             r = length audio_array mod c;
             truncated = (if r \<noteq> 0 then take (length audio_array - r) audio_array
                          else audio_array)
         in \<lparr>ncols = Some c, flat = truncated\<rparr>)
      else \<lparr>ncols = None, flat = audio_array\<rparr>)"

text \<open>
  \<open>bytes_to_numpy\<close>: every exception of the body, the unsupported dtype included, is
  re-raised as InvalidAudioFormatError.
\<close>

definition bytes_to_numpy :: "bytes \<Rightarrow> int \<Rightarrow> int \<Rightarrow> string \<Rightarrow> error + (array \<times> int \<times> int)" where
  "bytes_to_numpy audio_bytes sample_rate channels dtype =
     (if dtype = ''int16'' then
        (case frombuffer_int16 audio_bytes of
           Inl e \<Rightarrow> Inl InvalidAudioFormatError
         | Inr xs \<Rightarrow> Inr (Int16Array (reshape_channels xs channels), sample_rate, channels))
      else if dtype = ''float32'' then
        (case frombuffer_float32 audio_bytes of
           Inl e \<Rightarrow> Inl InvalidAudioFormatError
         | Inr xs \<Rightarrow> Inr (Float32Array (reshape_channels xs channels), sample_rate, channels))
      else Inl InvalidAudioFormatError)"

text \<open>The call with the default \<open>dtype='int16'\<close>, as every caller in the package makes it.\<close>

definition bytes_to_numpy_int16 :: "bytes \<Rightarrow> int \<Rightarrow> int \<Rightarrow> error + (16 word ndarray \<times> int \<times> int)" where
  "bytes_to_numpy_int16 audio_bytes sample_rate channels =
     (case frombuffer_int16 audio_bytes of
        Inl e \<Rightarrow> Inl InvalidAudioFormatError
      | Inr xs \<Rightarrow> Inr (reshape_channels xs channels, sample_rate, channels))"

text \<open>
  \<open>numpy_to_bytes\<close>: the arrays of this model are contiguous, so \<open>astype\<close> and
  \<open>tobytes\<close> remain.
\<close>

definition numpy_to_bytes :: "array \<Rightarrow> string \<Rightarrow> error + bytes" where
  "numpy_to_bytes audio_array dtype =
     (if dtype = ''int16'' then Inr (tobytes_int16 (flat (astype_int16 audio_array)))
      else if dtype = ''float32'' then Inr (tobytes_float32 (flat (astype_float32 audio_array)))
      else Inl InvalidAudioFormatError)"



section \<open>Arithmetic on arrays\<close>

definition f64_add :: "f64 \<Rightarrow> f64 \<Rightarrow> f64" where
  "f64_add a b = (case (a, b) of (Some x, Some y) \<Rightarrow> Some (x + y) | _ \<Rightarrow> None)"

definition f64_mul :: "f64 \<Rightarrow> f64 \<Rightarrow> f64" where
  "f64_mul a b = (case (a, b) of (Some x, Some y) \<Rightarrow> Some (x * y) | _ \<Rightarrow> None)"

definition f64_sum :: "f64 list \<Rightarrow> f64" where
  "f64_sum xs = foldr f64_add xs (Some 0)"

text \<open>The product of two doubles.\<close>

definition f64_times :: "f64 \<Rightarrow> f64 \<Rightarrow> f64" where
  "f64_times a b =
     (case (a, b) of (Some x, Some y) \<Rightarrow> Some (float64_round (x * y)) | _ \<Rightarrow> None)"

text \<open>
  \<open>np.mean\<close> of an int16 array: the sum, exact in a double, divided by the count; NaN
  (with a warning, no exception) when the array is empty.
\<close>

definition np_mean :: "16 word list \<Rightarrow> f64" where
  "np_mean xs =
     (if xs = [] then None
      else Some (float64_round (real_of_int (sum_list (map sint xs)) / real (length xs))))"

text \<open>\<open>np.abs\<close> on int16 wraps: the absolute value of -32768 is -32768.\<close>

definition abs_int16 :: "16 word \<Rightarrow> 16 word" where
  "abs_int16 w = (if sint w < 0 then - w else w)"

text \<open>\<open>np.clip(x, lo, hi)\<close> on one element.\<close>

definition clip :: "real \<Rightarrow> real \<Rightarrow> real \<Rightarrow> real" where
  "clip x lo hi = min (max x lo) hi"

section \<open>Channel conversion and resampling (src/utils/audio.py)\<close>

text \<open>
  \<open>convert_to_mono\<close>: the mean over the channel axis, cast back to the dtype of the
  input. The arrays of this model have one or two dimensions, so the branch that raises
  for other shapes has no input.
\<close>

definition convert_to_mono :: "16 word ndarray \<Rightarrow> 16 word ndarray" where
  "convert_to_mono audio_array =
     (case ncols audio_array of
        None \<Rightarrow> audio_array
      | Some c \<Rightarrow>
          \<lparr>ncols = None,
           flat = map (\<lambda>row. f64_to_int16 (np_mean row)) (rows c (flat audio_array))\<rparr>)"

text \<open>\<open>np.column_stack([a] * k)\<close> for a one-dimensional a: k copies of each element per row.\<close>

definition column_stack :: "'a list \<Rightarrow> nat \<Rightarrow> 'a ndarray" where
  "column_stack a k = \<lparr>ncols = Some k, flat = concat (map (replicate k) a)\<rparr>"

text \<open>
  \<open>np.linspace(0, n - 1, m)\<close>, for \<open>m \<ge> 0\<close>: the multiples of
  \<open>step = (n - 1) / (m - 1)\<close>, the last one replaced by \<open>n - 1\<close> itself.
\<close>

definition linspace :: "nat \<Rightarrow> nat \<Rightarrow> real list" where
  "linspace n m =
     (if m = 0 then []
      else if m = 1 then [0]
      else (let step = float64_round ((real n - 1) / (real m - 1))
            in map (\<lambda>i. float64_round (real i * step)) [0..<m - 1] @ [real n - 1]))"

text \<open>
  \<open>np.interp(x, old_indices, fp)\<close> at one point x, where \<open>old_indices\<close> is
  \<open>0, 1, ..., n - 1\<close> and fp is not empty: the end values outside, the sample itself
  at an index, and \<open>slope * (x - xp[j]) + fp[j]\<close> between two indices.
\<close>

definition interp :: "real \<Rightarrow> real list \<Rightarrow> real" where
  "interp x fp =
     (let n = length fp; j = nat \<lfloor>x\<rfloor>
      in if x \<le> 0 then fp ! 0
         else if real (n - 1) \<le> x then fp ! (n - 1)
         else if x = real j then fp ! j
         else (let slope = float64_round (float64_round (fp ! (j + 1) - fp ! j)
                                          / float64_round (real (j + 1) - real j))
               in float64_round (float64_round (slope * float64_round (x - real j)) + fp ! j)))"

text \<open>
  \<open>_resample_audio\<close>. A zero original rate raises ZeroDivisionError; a negative new
  length makes \<open>np.linspace\<close> raise ValueError, and an empty input makes
  \<open>np.interp\<close> raise ValueError.
\<close>

definition new_length :: "nat \<Rightarrow> int \<Rightarrow> int \<Rightarrow> int" where
  "new_length n original_rate target_rate =
     (let ratio = float64_round (real_of_int target_rate / real_of_int original_rate)
      in trunc (float64_round (float64_round (real n) * ratio)))"

definition resample_channel :: "16 word list \<Rightarrow> real list \<Rightarrow> 16 word list" where
  "resample_channel column new_indices =
     map (\<lambda>x. f64_to_int16 (Some (interp x (map (real_of_int \<circ> sint) column)))) new_indices"

definition resample_audio :: "16 word ndarray \<Rightarrow> int \<Rightarrow> int \<Rightarrow> error + 16 word ndarray" where
  "resample_audio audio_array original_rate target_rate =
     (if original_rate = target_rate then Inr audio_array
      else if original_rate = 0 then Inl ZeroDivisionError
      else (let n = len audio_array;
                m = new_length n original_rate target_rate
            in if m < 0 then Inl ValueError
               else if n = 0 then Inl ValueError
               else (let new_indices = linspace n (nat m)
                     in case ncols audio_array of
                          None \<Rightarrow>
                            Inr \<lparr>ncols = None,
                                 flat = resample_channel (flat audio_array) new_indices\<rparr>
                        | Some c \<Rightarrow>
                            (let rs = rows c (flat audio_array);
                                 columns = map (\<lambda>channel. resample_channel
                                             (map (\<lambda>row. row ! channel) rs) new_indices) [0..<c]
                             in Inr \<lparr>ncols = Some c,
                                     flat = concat (map (\<lambda>i. map (\<lambda>col. col ! i) columns)
                                                      [0..<nat m])\<rparr>))))"

text \<open>\<open>normalize_audio\<close>: every exception is re-raised as AudioProcessingError.\<close>

definition normalize_audio :: "bytes \<Rightarrow> int \<Rightarrow> int \<Rightarrow> int \<Rightarrow> int \<Rightarrow> error + bytes" where
  "normalize_audio audio_bytes original_sample_rate original_channels
                   target_sample_rate target_channels =
     (case bytes_to_numpy_int16 audio_bytes original_sample_rate original_channels of
        Inl e \<Rightarrow> Inl AudioProcessingError
      | Inr (decoded, _, _) \<Rightarrow>
          (let audio_array =
                 (if original_channels > 1 \<and> target_channels = 1 then convert_to_mono decoded
                  else if original_channels = 1 \<and> target_channels > 1
                       then column_stack (flat decoded) (nat target_channels)
                  else decoded);
               resampled =
                 (if original_sample_rate \<noteq> target_sample_rate
                  then resample_audio audio_array original_sample_rate target_sample_rate
                  else Inr audio_array)
           in case resampled of
                Inl e \<Rightarrow> Inl AudioProcessingError
              | Inr a \<Rightarrow>
                  (case numpy_to_bytes (Int16Array a) ''int16'' of
                     Inl e \<Rightarrow> Inl AudioProcessingError
                   | Inr out \<Rightarrow> Inr out)))"

section \<open>Noise reduction (src/preprocessors/noise_reduction.py)\<close>

text \<open>
  A configuration dictionary is a record of its recognised keys, each absent
  (\<open>None\<close>) or present with a value of the type the constructor converts it to.
\<close>

record NoiseReductionConfig =
  cfg_enabled :: "bool option"
  cfg_strength :: "real option"
  cfg_sample_rate :: "int option"
  cfg_frame_length :: "int option"
  cfg_hop_length :: "int option"

record NoiseReductionProcessor =
  enabled :: bool
  strength :: real
  sample_rate :: int
  frame_length :: int
  hop_length :: int

text \<open>\<open>config.get(key, default)\<close>.\<close>

definition config_get :: "'a option \<Rightarrow> 'a \<Rightarrow> 'a" where
  "config_get v d = (case v of None \<Rightarrow> d | Some x \<Rightarrow> x)"

text \<open>\<open>__init__\<close> followed by \<open>_initialize\<close>, which validates the parameters.\<close>

definition NoiseReductionProcessor_init ::
  "NoiseReductionConfig \<Rightarrow> error + NoiseReductionProcessor" where
  "NoiseReductionProcessor_init config =
     (let self = \<lparr>enabled = config_get (cfg_enabled config) True,
                  strength = config_get (cfg_strength config) (1 / 2),
                  sample_rate = config_get (cfg_sample_rate config) 16000,
                  frame_length = config_get (cfg_frame_length config) 2048,
                  hop_length = config_get (cfg_hop_length config) 512\<rparr>
      in if \<not> (0 \<le> strength self \<and> strength self \<le> 1) then Inl AudioProcessingError
         else if sample_rate self \<le> 0 then Inl AudioProcessingError
         else Inr self)"

text \<open>
  \<open>_create_soft_mask\<close> on one element, with the double literals \<open>1e-8\<close> and
  \<open>0.1\<close>. The denominator \<open>threshold + 1e-8\<close> is zero at the threshold
  \<open>-1e-8\<close>: numpy then divides to an infinity, or to NaN for a zero energy, and goes
  on with a warning. With \<open>ratio = +inf\<close> the mask is \<open>1 / (1 + 0)\<close>, with
  \<open>ratio = -inf\<close> it is \<open>1 / (1 + inf) = 0\<close>, clipped to 0.1; NaN passes
  through \<open>np.clip\<close>.
\<close>

definition soft_mask :: "f64 \<Rightarrow> f64 \<Rightarrow> f64" where
  "soft_mask energy threshold =
     (case (energy, threshold) of
        (Some e, Some t) \<Rightarrow>
          (let d = float64_round (t + float64_round (1 / 10 ^ 8))
           in if d = 0
              then (if e = 0 then None else if 0 < e then Some 1
                    else Some (float64_round (1 / 10)))
              else (let ratio = float64_round (e / d);
                        x = float64_round (- 5 * float64_round (ratio - 1));
                        mask = float64_round (1 / float64_round (1 + float64_round (exp x)))
                    in Some (clip mask (float64_round (1 / 10)) 1)))
      | _ \<Rightarrow> None)"

definition create_soft_mask :: "f64 list \<Rightarrow> f64 \<Rightarrow> f64 list" where
  "create_soft_mask energy threshold = map (\<lambda>e. soft_mask e threshold) energy"

text \<open>
  \<open>np.pad(a, k, mode='edge')\<close> and \<open>np.convolve(a, v, mode='valid')\<close>. numpy raises
  on an empty array in both; \<open>_apply_smoothing\<close> calls them only on a signal longer
  than the window and on a kernel of at least three entries. The order in which
  \<open>np.convolve\<close> adds the products is not fixed by numpy, so its sums are exact here.
\<close>

definition np_pad_edge :: "'a list \<Rightarrow> nat \<Rightarrow> 'a list" where
  "np_pad_edge a k =
     (case a of [] \<Rightarrow> [] | x # _ \<Rightarrow> replicate k x @ a @ replicate k (last a))"

definition convolve_valid :: "f64 list \<Rightarrow> f64 list \<Rightarrow> f64 list" where
  "convolve_valid a v =
     (let long = (if length a < length v then v else a);
          short = (if length a < length v then a else v)
      in map (\<lambda>i. f64_sum (map (\<lambda>j. f64_mul (long ! (i + j)) (short ! (length short - 1 - j)))
                                [0..<length short]))
             [0..<length long - length short + 1])"

text \<open>
  \<open>max(3, int(self.sample_rate * 0.001))\<close>: the product converts the sample rate to a
  float first, which raises OverflowError for a sample rate too large for a double.
\<close>

definition window_size :: "NoiseReductionProcessor \<Rightarrow> error + int" where
  "window_size self =
     (case int_to_float (sample_rate self) of
        Inl e \<Rightarrow> Inl e
      | Inr r \<Rightarrow> Inr (max 3 (trunc (float64_round (r * float64_round (1 / 1000))))))"

definition apply_smoothing :: "NoiseReductionProcessor \<Rightarrow> f64 list \<Rightarrow> error + f64 list" where
  "apply_smoothing self audio_array =
     (case window_size self of
        Inl e \<Rightarrow> Inl e
      | Inr w \<Rightarrow>
          (if int (length audio_array) \<le> w then Inr audio_array
           else (let kernel = replicate (nat w) (Some (float64_round (1 / real_of_int w)));
                     padded_audio = np_pad_edge audio_array (nat (w div 2));
                     smoothed = convolve_valid padded_audio kernel
                 in Inr (take (length audio_array) smoothed))))"

definition apply_noise_reduction ::
  "NoiseReductionProcessor \<Rightarrow> 16 word list \<Rightarrow> error + f64 list" where
  "apply_noise_reduction self audio_array =
     (let energy = map abs_int16 audio_array;
          noise_sample_size = min (int (length audio_array) div 10) (sample_rate self div 2);
          noise_level =
            (if noise_sample_size > 0 then np_mean (take (nat noise_sample_size) energy)
             else f64_times (np_mean energy) (Some (float64_round (1 / 10))));
          threshold = f64_times noise_level (Some (float64_round (1 + strength self)));
          mask = create_soft_mask (map int16_to_f64 energy) threshold;
          processed_audio = map (\<lambda>(a, m). f64_times (int16_to_f64 a) m) (zip audio_array mask)
      in apply_smoothing self processed_audio)"

text \<open>Python's \<open>x or d\<close> on an optional integer: d when x is None or 0.\<close>

definition py_or :: "int option \<Rightarrow> int \<Rightarrow> int" where
  "py_or x d = (case x of None \<Rightarrow> d | Some v \<Rightarrow> if v = 0 then d else v)"

text \<open>\<open>NoiseReductionProcessor.process\<close>.\<close>

definition NoiseReductionProcessor_process ::
  "NoiseReductionProcessor \<Rightarrow> bytes \<Rightarrow> int option \<Rightarrow> int option \<Rightarrow> error + bytes" where
  "NoiseReductionProcessor_process self audio_bytes original_sample_rate original_channels =
     (if \<not> enabled self then Inr audio_bytes
      else
        (let rate = py_or original_sample_rate (sample_rate self);
             channels = py_or original_channels 1
         in case bytes_to_numpy_int16 audio_bytes rate channels of
              Inl e \<Rightarrow> Inl AudioProcessingError
            | Inr (audio_array, _, _) \<Rightarrow>
                (let mono_array =
                       (if ncols audio_array \<noteq> None then convert_to_mono audio_array
                        else audio_array)
                 in case apply_noise_reduction self (flat mono_array) of
                      Inl e \<Rightarrow> Inl AudioProcessingError
                    | Inr processed_mono \<Rightarrow>
                        (let processed_array =
                               (if ncols audio_array \<noteq> None \<and> channels > 1
                                then column_stack processed_mono (nat channels)
                                else \<lparr>ncols = None, flat = processed_mono\<rparr>)
                         in case numpy_to_bytes (Float64Array processed_array) ''int16'' of
                              Inl e \<Rightarrow> Inl AudioProcessingError
                            | Inr out \<Rightarrow> Inr out))))"

section \<open>Normalizer (src/preprocessors/noise_reduction.py)\<close>

record AudioNormalizerConfig =
  cfg_target_sample_rate :: "int option"
  cfg_target_channels :: "int option"
  cfg_normalize_volume :: "bool option"
  cfg_target_volume :: "real option"

record AudioNormalizer =
  target_sample_rate :: int
  target_channels :: int
  normalize_volume :: bool
  target_volume :: real

definition AudioNormalizer_init :: "AudioNormalizerConfig \<Rightarrow> error + AudioNormalizer" where
  "AudioNormalizer_init config =
     (let self = \<lparr>target_sample_rate = config_get (cfg_target_sample_rate config) 16000,
                  target_channels = config_get (cfg_target_channels config) 1,
                  normalize_volume = config_get (cfg_normalize_volume config) True,
                  target_volume = config_get (cfg_target_volume config) (8 / 10)\<rparr>
      in if target_sample_rate self \<le> 0 then Inl AudioProcessingError
         else if target_channels self \<notin> {1, 2} then Inl AudioProcessingError
         else if \<not> (0 \<le> target_volume self \<and> target_volume self \<le> 1)
              then Inl AudioProcessingError
         else Inr self)"

text \<open>\<open>np.max\<close> raises ValueError on an empty array.\<close>

definition np_max :: "int list \<Rightarrow> error + int" where
  "np_max xs = (case xs of [] \<Rightarrow> Inl ValueError | x # rest \<Rightarrow> Inr (fold max rest x))"

text \<open>\<open>_normalize_volume\<close>: every exception is re-raised as AudioProcessingError.\<close>

definition AudioNormalizer_normalize_volume :: "AudioNormalizer \<Rightarrow> bytes \<Rightarrow> error + bytes" where
  "AudioNormalizer_normalize_volume self audio_bytes =
     (case bytes_to_numpy_int16 audio_bytes (target_sample_rate self) (target_channels self) of
        Inl e \<Rightarrow> Inl AudioProcessingError
      | Inr (audio_array, _, _) \<Rightarrow>
          (case np_max (map (sint \<circ> abs_int16) (flat audio_array)) of
             Inl e \<Rightarrow> Inl AudioProcessingError
           | Inr current_max \<Rightarrow>
               (let normalized_array =
                      (if current_max > 0 then
                         (let target_max = float64_round (target_volume self * 32767);
                              scale_factor0 = float64_round (target_max / real_of_int current_max);
                              scale_factor =
                                (if scale_factor0 > 1
                                 then min scale_factor0
                                        (float64_round (target_max / real_of_int current_max))
                                 else scale_factor0)
                          in Float64Array
                               \<lparr>ncols = ncols audio_array,
                                flat = map (\<lambda>w. Some (clip (float64_round
                                                               (real_of_int (sint w) * scale_factor))
                                                            (- 32768) 32767))
                                           (flat audio_array)\<rparr>)
                       else Int16Array audio_array)
                in case numpy_to_bytes (Int16Array (astype_int16 normalized_array)) ''int16'' of
                     Inl e \<Rightarrow> Inl AudioProcessingError
                   | Inr out \<Rightarrow> Inr out)))"

text \<open>\<open>AudioNormalizer.process\<close>.\<close>

definition AudioNormalizer_process ::
  "AudioNormalizer \<Rightarrow> bytes \<Rightarrow> int option \<Rightarrow> int option \<Rightarrow> error + bytes" where
  "AudioNormalizer_process self audio_bytes original_sample_rate original_channels =
     (case (original_sample_rate, original_channels) of
        (Some osr, Some och) \<Rightarrow>
          (let need_conversion =
                 (osr \<noteq> target_sample_rate self \<or> och \<noteq> target_channels self);
               normalized_bytes =
                 (if need_conversion
                  then normalize_audio audio_bytes osr och
                         (target_sample_rate self) (target_channels self)
                  else Inr audio_bytes)
           in case normalized_bytes of
                Inl e \<Rightarrow> Inl AudioProcessingError
              | Inr nb \<Rightarrow>
                  (if normalize_volume self
                   then (case AudioNormalizer_normalize_volume self nb of
                           Inl e \<Rightarrow> Inl AudioProcessingError
                         | Inr out \<Rightarrow> Inr out)
                   else Inr nb))
      | _ \<Rightarrow>
          (if normalize_volume self
           then (case AudioNormalizer_normalize_volume self audio_bytes of
                   Inl e \<Rightarrow> Inl AudioProcessingError
                 | Inr out \<Rightarrow> Inr out)
           else Inr audio_bytes))"

section \<open>Pipeline (src/core/pipeline.py)\<close>

text \<open>
  An \<open>AudioPreprocessor\<close> object is seen by the pipeline through its \<open>name\<close> property
  and its \<open>process\<close> method; \<open>'kw\<close> is the type of the keyword arguments the pipeline
  forwards.
\<close>

record 'kw AudioPreprocessor =
  name :: string
  process :: "bytes \<Rightarrow> 'kw \<Rightarrow> error + bytes"

record 'kw AudioPipeline =
  processors :: "'kw AudioPreprocessor list"

text \<open>The loop of \<open>AudioPipeline.process\<close>: \<open>result = processor.process(result, **kwargs)\<close>.\<close>

fun run_processors :: "'kw AudioPreprocessor list \<Rightarrow> bytes \<Rightarrow> 'kw \<Rightarrow> error + bytes" where
  "run_processors [] result kwargs = Inr result"
| "run_processors (p # ps) result kwargs =
     (case process p result kwargs of
        Inl e \<Rightarrow> Inl e
      | Inr r \<Rightarrow> run_processors ps r kwargs)"

text \<open>\<open>AudioPipeline.process\<close>: any exception of the loop is re-raised as AudioProcessingError.\<close>

definition AudioPipeline_process :: "'kw AudioPipeline \<Rightarrow> bytes \<Rightarrow> 'kw \<Rightarrow> error + bytes" where
  "AudioPipeline_process pl audio_bytes kwargs =
     (case run_processors (processors pl) audio_bytes kwargs of
        Inl e \<Rightarrow> Inl AudioProcessingError
      | Inr r \<Rightarrow> Inr r)"

record 'kw AudioPipelineManager =
  registered_processors :: "string \<rightharpoonup> 'kw AudioPreprocessor"

definition register_processor ::
  "'kw AudioPipelineManager \<Rightarrow> 'kw AudioPreprocessor \<Rightarrow> 'kw AudioPipelineManager" where
  "register_processor m p =
     m\<lparr>registered_processors := (registered_processors m)(name p \<mapsto> p)\<rparr>"

definition get_processor ::
  "'kw AudioPipelineManager \<Rightarrow> string \<Rightarrow> error + 'kw AudioPreprocessor" where
  "get_processor m nm =
     (case registered_processors m nm of
        None \<Rightarrow> Inl PreprocessorError
      | Some p \<Rightarrow> Inr p)"

text \<open>The loop of \<open>create_pipeline\<close>: one \<open>get_processor\<close> per name, in order.\<close>

fun collect_processors ::
  "'kw AudioPipelineManager \<Rightarrow> string list \<Rightarrow> error + 'kw AudioPreprocessor list" where
  "collect_processors m [] = Inr []"
| "collect_processors m (nm # nms) =
     (case get_processor m nm of
        Inl e \<Rightarrow> Inl e
      | Inr p \<Rightarrow>
          (case collect_processors m nms of
             Inl e \<Rightarrow> Inl e
           | Inr ps \<Rightarrow> Inr (p # ps)))"

definition create_pipeline ::
  "'kw AudioPipelineManager \<Rightarrow> string list \<Rightarrow> error + 'kw AudioPipeline" where
  "create_pipeline m processor_names =
     (if processor_names = [] then Inr \<lparr>processors = []\<rparr>
      else (case collect_processors m processor_names of
              Inl e \<Rightarrow> Inl e
            | Inr ps \<Rightarrow> Inr \<lparr>processors = ps\<rparr>))"

section \<open>Properties of the codec\<close>

lemma cat16_lo: "ucast (word_cat (b1::8 word) (b0::8 word) :: 16 word) = b0"
  by (rule bit_word_eqI) (auto simp: bit_simps)

lemma cat16_hi: "ucast (drop_bit 8 (word_cat (b1::8 word) (b0::8 word) :: 16 word)) = b1"
  by (rule bit_word_eqI) (auto simp: bit_simps)


lemma tobytes_int16_le: "even (length b) \<Longrightarrow> tobytes_int16 (int16_le b) = b"
  by (induction b rule: int16_le.induct) (simp_all add: tobytes_int16_def cat16_lo cat16_hi)


lemma length_int16_le: "length (int16_le b) = length b div 2"
  by (induction b rule: int16_le.induct) simp_all







text \<open>\<open>bytes_to_numpy_int16\<close> is \<open>bytes_to_numpy\<close> at its default dtype.\<close>

lemma bytes_to_numpy_default_dtype:
  "bytes_to_numpy b sr channels ''int16'' =
     (case bytes_to_numpy_int16 b sr channels of
        Inl e \<Rightarrow> Inl e
      | Inr (a, r, c) \<Rightarrow> Inr (Int16Array a, r, c))"
  by (simp add: bytes_to_numpy_def bytes_to_numpy_int16_def split: sum.splits)

lemma bytes_to_numpy_int16_even:
  "even (length b) \<Longrightarrow>
   bytes_to_numpy_int16 b r c = Inr (reshape_channels (int16_le b) c, r, c)"
  by (simp add: bytes_to_numpy_int16_def frombuffer_int16_def)


lemma reshape_channels_full:
  assumes "channels > 1 \<longrightarrow> nat channels dvd length xs"
  shows "flat (reshape_channels xs channels) = xs"
  using assms by (auto simp: reshape_channels_def Let_def)










section \<open>Properties of noise reduction\<close>

lemma init_Inr:
  assumes "NoiseReductionProcessor_init config = Inr self"
  shows "enabled self = config_get (cfg_enabled config) True"
    and "strength self = config_get (cfg_strength config) (1 / 2)"
    and "sample_rate self = config_get (cfg_sample_rate config) 16000"
    and "0 \<le> strength self" and "strength self \<le> 1" and "0 < sample_rate self"
  using assms
  by (auto simp: NoiseReductionProcessor_init_def Let_def split: if_splits)

text \<open>
  Claim C3. A noise reduction processor constructed from a configuration with
  \<open>enabled = False\<close> returns the input buffer unchanged from \<open>process\<close>, for
  every buffer and every value, present or absent, of the two format parameters.
\<close>

theorem disabled_is_identity:
  assumes "NoiseReductionProcessor_init config = Inr self"
    and "cfg_enabled config = Some False"
  shows "NoiseReductionProcessor_process self b original_sample_rate original_channels = Inr b"
  using init_Inr(1)[OF assms(1)] assms(2)
  by (simp add: NoiseReductionProcessor_process_def config_get_def)

theorem disabled_is_identity_witness:
  "NoiseReductionProcessor_process
     \<lparr>enabled = False, strength = 1 / 2, sample_rate = 16000, frame_length = 2048, hop_length = 512\<rparr>
     [1, 2, 3] (Some 16000) (Some 1) = Inr [1, 2, 3]"
  using disabled_is_identity [of
     "\<lparr>cfg_enabled = Some False, cfg_strength = None, cfg_sample_rate = None,
       cfg_frame_length = None, cfg_hop_length = None\<rparr>"
     "\<lparr>enabled = False, strength = 1 / 2, sample_rate = 16000, frame_length = 2048, hop_length = 512\<rparr>"
     "[1, 2, 3]" "Some 16000" "Some 1"]
  by (simp add: NoiseReductionProcessor_init_def config_get_def)

lemma length_tobytes_int16: "length (tobytes_int16 ws) = 2 * length ws"
  by (induction ws) (simp_all add: tobytes_int16_def)

lemma length_convolve_valid:
  "length v \<le> length a \<Longrightarrow> length (convolve_valid a v) = length a - length v + 1"
  by (simp add: convolve_valid_def Let_def)

lemma length_np_pad_edge: "a \<noteq> [] \<Longrightarrow> length (np_pad_edge a k) = length a + 2 * k"
  by (cases a) (simp_all add: np_pad_edge_def)

text \<open>The window size exists exactly for the sample rates that convert to a float.\<close>

lemma window_size_in_range:
  assumes "\<bar>sample_rate self\<bar> < 2 ^ 1024 - 2 ^ 970"
  shows "\<exists>w. window_size self = Inr w \<and> 3 \<le> w"
  using assms by (simp add: window_size_def int_to_float_def)

lemma window_size_overflow:
  assumes "2 ^ 1024 - 2 ^ 970 \<le> \<bar>sample_rate self\<bar>"
  shows "window_size self = Inl OverflowError"
  using assms by (simp add: window_size_def int_to_float_def)

lemma window_size_Inr_ge: "window_size self = Inr w \<Longrightarrow> 3 \<le> w"
  by (auto simp: window_size_def split: sum.splits)

lemma apply_smoothing_Inl:
  "window_size self = Inl e \<Longrightarrow> apply_smoothing self xs = Inl e"
  by (simp add: apply_smoothing_def)

lemma apply_smoothing_Inr:
  assumes ws: "window_size self = Inr wz"
  shows "\<exists>ys. apply_smoothing self xs = Inr ys \<and> length ys = length xs"
proof (cases "int (length xs) \<le> wz")
  case True
  then show ?thesis using ws by (simp add: apply_smoothing_def)
next
  case False
  obtain w where ww: "wz = int w" and w3: "3 \<le> w"
    using window_size_Inr_ge[OF ws] by (metis nat_le_iff nat_numeral zero_le_numeral order.trans nat_0_le)
  have n: "w < length xs" using False ww by simp
  then have ne: "xs \<noteq> []" by auto
  have k: "nat (int w div 2) = w div 2" by (simp add: nat_div_distrib)
  let ?kernel = "replicate w (Some (float64_round (1 / real w)))"
  have lp: "length (np_pad_edge xs (w div 2)) = length xs + 2 * (w div 2)"
    by (rule length_np_pad_edge[OF ne])
  have lc: "length (convolve_valid (np_pad_edge xs (w div 2)) ?kernel)
        = length xs + 2 * (w div 2) - w + 1"
    using lp n by (subst length_convolve_valid) simp_all
  have le: "length xs \<le> length xs + 2 * (w div 2) - w + 1" using n by presburger
  have "apply_smoothing self xs
        = Inr (take (length xs) (convolve_valid (np_pad_edge xs (w div 2)) ?kernel))"
    using n k by (simp add: apply_smoothing_def Let_def ws ww)
  then show ?thesis using lc le by simp
qed

lemma apply_smoothing_short:
  "window_size self = Inr w \<Longrightarrow> int (length xs) \<le> w \<Longrightarrow> apply_smoothing self xs = Inr xs"
  by (simp add: apply_smoothing_def)

lemma apply_noise_reduction_Inl:
  "window_size self = Inl e \<Longrightarrow> apply_noise_reduction self xs = Inl e"
  by (simp add: apply_noise_reduction_def Let_def apply_smoothing_Inl)

lemma apply_noise_reduction_Inr:
  assumes "window_size self = Inr w"
  shows "\<exists>ys. apply_noise_reduction self xs = Inr ys \<and> length ys = length xs"
proof -
  let ?p = "map (\<lambda>(a, m). f64_times (int16_to_f64 a) m)
              (zip xs (create_soft_mask (map int16_to_f64 (map abs_int16 xs))
                 (f64_times
                    (if 0 < min (int (length xs) div 10) (sample_rate self div 2)
                     then np_mean (take (nat (min (int (length xs) div 10) (sample_rate self div 2)))
                                    (map abs_int16 xs))
                     else f64_times (np_mean (map abs_int16 xs)) (Some (float64_round (1 / 10))))
                    (Some (float64_round (1 + strength self))))))"
  have l: "length ?p = length xs" by (simp add: create_soft_mask_def)
  have "apply_noise_reduction self xs = apply_smoothing self ?p"
    by (simp add: apply_noise_reduction_def Let_def)
  then show ?thesis using apply_smoothing_Inr[OF assms, of ?p] l by simp
qed

lemma process_mono:
  assumes en: "enabled self" and ev: "even (length b)"
    and mono: "original_channels = None \<or> original_channels = Some 1"
    and ws: "window_size self = Inr w"
  shows "\<exists>out. NoiseReductionProcessor_process self b original_sample_rate original_channels = Inr out
               \<and> length out = length b"
proof -
  have ch: "py_or original_channels 1 = 1" using mono by (auto simp: py_or_def)
  have r: "reshape_channels (int16_le b) 1 = \<lparr>ncols = None, flat = int16_le b\<rparr>"
    by (simp add: reshape_channels_def)
  obtain ys where ys: "apply_noise_reduction self (int16_le b) = Inr ys"
      "length ys = length (int16_le b)"
    using apply_noise_reduction_Inr[OF ws] by blast
  show ?thesis
    using en ev ys
    by (simp add: NoiseReductionProcessor_process_def Let_def ch bytes_to_numpy_int16_even r
                  numpy_to_bytes_def length_tobytes_int16 length_int16_le)
qed

text \<open>
  For a sample rate that converts to a float, an enabled processor returns, for a mono
  16-bit buffer of even byte length, a buffer of the same byte length; a signal with no
  more samples than the window \<open>max(3, int(sample_rate * 0.001))\<close> leaves
  \<open>_apply_smoothing\<close> unchanged.
\<close>

lemma noise_reduction_length:
  assumes en: "enabled self" and ev: "even (length b)"
    and mono: "original_channels = None \<or> original_channels = Some 1"
    and sr: "\<bar>sample_rate self\<bar> < 2 ^ 1024 - 2 ^ 970"
  shows "(\<exists>out. NoiseReductionProcessor_process self b original_sample_rate original_channels = Inr out
               \<and> length out = length b)
       \<and> (\<exists>w. window_size self = Inr w
               \<and> (int (length xs) \<le> w \<longrightarrow> apply_smoothing self xs = Inr xs))"
proof -
  obtain w where w: "window_size self = Inr w" using window_size_in_range[OF sr] by blast
  show ?thesis using process_mono[OF en ev mono w] w apply_smoothing_short[OF w] by blast
qed

text \<open>
  Claim C10, at the input where the code breaks it. A configuration with the sample rate
  \<open>10 ^ 400\<close> passes construction, and the enabled processor then raises
  AudioProcessingError on the mono buffer of one 16-bit sample instead of returning two
  bytes: \<open>int(self.sample_rate * 0.001)\<close> in \<open>_apply_smoothing\<close> cannot convert
  the sample rate to a float.
\<close>

theorem noise_reduction_overflow:
  "NoiseReductionProcessor_init
     \<lparr>cfg_enabled = Some True, cfg_strength = None, cfg_sample_rate = Some (10 ^ 400),
      cfg_frame_length = None, cfg_hop_length = None\<rparr>
     = Inr \<lparr>enabled = True, strength = 1 / 2, sample_rate = 10 ^ 400,
            frame_length = 2048, hop_length = 512\<rparr>
   \<and> NoiseReductionProcessor_process
       \<lparr>enabled = True, strength = 1 / 2, sample_rate = 10 ^ 400,
        frame_length = 2048, hop_length = 512\<rparr> [1, 0] None None
     = Inl AudioProcessingError"
proof -
  let ?self = "\<lparr>enabled = True, strength = 1 / 2, sample_rate = 10 ^ 400,
                frame_length = 2048, hop_length = 512\<rparr>"
  have "(2::int) ^ 1024 - 2 ^ 970 \<le> \<bar>10 ^ 400\<bar>" by simp
  then have "window_size ?self = Inl OverflowError" by (intro window_size_overflow) simp
  then have "apply_noise_reduction ?self xs = Inl OverflowError" for xs
    by (rule apply_noise_reduction_Inl)
  then have "NoiseReductionProcessor_process ?self [1, 0] None None = Inl AudioProcessingError"
    by (simp add: NoiseReductionProcessor_process_def Let_def py_or_def
                  bytes_to_numpy_int16_def frombuffer_int16_def reshape_channels_def)
  moreover have "(0::int) < 10 ^ 400" by simp
  ultimately show ?thesis
    by (simp add: NoiseReductionProcessor_init_def config_get_def)
qed






section \<open>Properties of the resampler\<close>

lemma round_half_even_nonneg: "0 \<le> x \<Longrightarrow> 0 \<le> round_half_even x"
  by (auto simp: round_half_even_def Let_def)

lemma float64_round_nonneg: assumes "0 \<le> x" shows "0 \<le> float64_round x"
proof (cases "x = 0")
  case True then show ?thesis by (simp add: float64_round_def)
next
  case False
  then have x: "0 < x" using assms by simp
  define u :: real where "u = 2 powi (float_exponent \<bar>x\<bar> - 52)"
  have u: "0 < u" by (simp add: u_def)
  have "0 \<le> round_half_even (\<bar>x\<bar> / u)" using u by (intro round_half_even_nonneg) simp
  then have "0 \<le> real_of_int (round_half_even (\<bar>x\<bar> / u)) * u"
    using u by (intro mult_nonneg_nonneg) simp_all
  moreover have "float64_round x = real_of_int (round_half_even (\<bar>x\<bar> / u)) * u"
    using x by (simp add: float64_round_def Let_def u_def)
  ultimately show ?thesis by simp
qed

lemma new_length_nonneg:
  assumes "0 < r1" "0 < r2"
  shows "0 \<le> new_length n r1 r2"
proof -
  have a: "0 \<le> float64_round (real_of_int r2 / real_of_int r1)"
    using assms by (intro float64_round_nonneg) simp
  have b: "0 \<le> float64_round (real n)" by (intro float64_round_nonneg) simp
  have "0 \<le> float64_round (real n) * float64_round (real_of_int r2 / real_of_int r1)"
    by (rule mult_nonneg_nonneg[OF b a])
  then have "0 \<le> float64_round (float64_round (real n) * float64_round (real_of_int r2 / real_of_int r1))"
    by (rule float64_round_nonneg)
  then show ?thesis by (simp add: new_length_def Let_def trunc_def)
qed

lemma length_linspace: "length (linspace n m) = m"
  by (simp add: linspace_def)

lemma length_resample_channel: "length (resample_channel col xs) = length xs"
  by (simp add: resample_channel_def)

lemma length_concat_const:
  assumes "\<And>i. i < m \<Longrightarrow> length (f i) = c"
  shows "length (concat (map f [0..<m])) = m * c"
  using assms by (induction m) simp_all

lemma resample_audio_1d:
  assumes "r1 \<noteq> r2" "r1 \<noteq> 0" "0 \<le> new_length (len a) r1 r2" "0 < len a" "ncols a = None"
  shows "resample_audio a r1 r2 =
         Inr \<lparr>ncols = None,
              flat = resample_channel (flat a)
                       (linspace (len a) (nat (new_length (len a) r1 r2)))\<rparr>"
  using assms by (simp add: resample_audio_def Let_def)

lemma resample_audio_2d:
  assumes "r1 \<noteq> r2" "r1 \<noteq> 0" "0 \<le> new_length (len a) r1 r2" "0 < len a" "ncols a = Some c"
  shows "resample_audio a r1 r2 =
         Inr \<lparr>ncols = Some c,
              flat = concat (map (\<lambda>i. map (\<lambda>col. col ! i)
                       (map (\<lambda>channel. resample_channel
                               (map (\<lambda>row. row ! channel) (rows c (flat a)))
                               (linspace (len a) (nat (new_length (len a) r1 r2)))) [0..<c]))
                     [0..<nat (new_length (len a) r1 r2)])\<rparr>"
  using assms by (simp add: resample_audio_def Let_def)

lemma bit_length_bounds: "0 < n \<Longrightarrow> 2 ^ (bit_length n - 1) \<le> n \<and> n < 2 ^ bit_length n"
proof (induction n rule: bit_length.induct)
  case 1
  then show ?case by simp
next
  case (2 n)
  define h where "h = Suc n div 2"
  have bl: "bit_length (Suc n) = Suc (bit_length h)" by (simp add: h_def)
  show ?case
  proof (cases "h = 0")
    case True
    then have "n = 0" unfolding h_def by presburger
    then show ?thesis by simp
  next
    case False
    then have ih: "2 ^ (bit_length h - 1) \<le> h" "h < 2 ^ bit_length h"
      using "2.IH" by (simp_all add: h_def)
    obtain k where k: "bit_length h = Suc k" using False by (cases h) simp_all
    have "2 * h \<le> Suc n" "Suc n < 2 * h + 2" unfolding h_def by presburger+
    moreover have "2 * 2 ^ k \<le> 2 * h" using ih(1) k by simp
    moreover have "2 * h + 2 \<le> 2 * 2 ^ Suc k" using ih(2) k by simp
    ultimately show ?thesis unfolding bl k by simp
  qed
qed

text \<open>
  \<open>float_exponent\<close> is the binary exponent, and \<open>float64_round\<close> is within
  half a unit in the last place, so within a relative error of \<open>2 ^ -53\<close>.
\<close>

lemma float_exponent_bounds:
  assumes "0 < x"
  shows "2 powi (float_exponent x) \<le> x \<and> x < 2 powi (float_exponent x + 1)"
proof (cases "1 \<le> x")
  case True
  define n where "n = nat \<lfloor>x\<rfloor>"
  have n1: "0 < n" using True by (simp add: n_def)
  have nx: "real n \<le> x" "x < real n + 1" using True by (simp_all add: n_def)
  obtain k where k: "bit_length n = Suc k" using n1 by (cases n) simp_all
  have b: "2 ^ k \<le> n" "n < 2 ^ Suc k" using bit_length_bounds[OF n1] k by simp_all
  have e: "float_exponent x = int k" using True by (simp add: float_exponent_def n_def[symmetric] k)
  have "real (2 ^ k) \<le> real n" using b(1) by (intro of_nat_mono)
  then have "(2::real) ^ k \<le> real n" by simp
  then have lo: "(2::real) ^ k \<le> x" using nx(1) by linarith
  have "real (Suc n) \<le> real (2 ^ Suc k)" using b(2) by (intro of_nat_mono) simp
  then have "real n + 1 \<le> 2 ^ Suc k" by simp
  then have hi: "x < 2 ^ Suc k" using nx(2) by linarith
  have "(2::real) powi (int k + 1) = 2 ^ Suc k" by (simp add: power_int_add)
  then show ?thesis using lo hi unfolding e by simp
next
  case False
  define y where "y = 1 / x"
  have y1: "1 < y" using False assms by (simp add: y_def)
  define c where "c = nat (\<lceil>y\<rceil> - 1)"
  have "2 \<le> \<lceil>y\<rceil>" using y1 by (simp add: le_ceiling_iff)
  then have c1: "0 < c" by (simp add: c_def)
  have cy: "real c < y" "y \<le> real c + 1"
    using \<open>2 \<le> \<lceil>y\<rceil>\<close> by (simp_all add: c_def) linarith+
  obtain k where k: "bit_length c = Suc k" using c1 by (cases c) simp_all
  have b: "2 ^ k \<le> c" "c < 2 ^ Suc k" using bit_length_bounds[OF c1] k by simp_all
  have e: "float_exponent x = - int (Suc k)"
    using False by (simp add: float_exponent_def y_def[symmetric] c_def[symmetric] k)
  have "real (2 ^ k) \<le> real c" using b(1) by (intro of_nat_mono)
  then have "(2::real) ^ k \<le> real c" by simp
  then have lo: "(2::real) ^ k < y" using cy(1) by linarith
  have "real (Suc c) \<le> real (2 ^ Suc k)" using b(2) by (intro of_nat_mono) simp
  then have "real c + 1 \<le> 2 ^ Suc k" by simp
  then have hi: "y \<le> 2 ^ Suc k" using cy(2) by linarith
  have xy: "x = 1 / y" using assms by (simp add: y_def)
  have "1 / 2 ^ Suc k \<le> x" unfolding xy using hi y1 by (intro divide_left_mono) simp_all
  moreover have "x < 1 / 2 ^ k" unfolding xy using lo y1
    by (intro divide_strict_left_mono mult_pos_pos) simp_all
  moreover have "(2::real) powi (- int (Suc k)) = 1 / 2 ^ Suc k"
    using power_int_minus_divide[of "2::real" "int (Suc k)"] by (simp only: power_int_of_nat)
  moreover have "(2::real) powi (- int (Suc k) + 1) = 1 / 2 ^ k"
  proof -
    have "- int (Suc k) + 1 = - int k" by simp
    then show ?thesis
      using power_int_minus_divide[of "2::real" "int k"] by (simp only: power_int_of_nat)
  qed
  ultimately show ?thesis unfolding e by simp
qed

lemma round_half_even_error: "\<bar>real_of_int (round_half_even x) - x\<bar> \<le> 1 / 2"
  by (auto simp: round_half_even_def Let_def)

lemma float64_round_error:
  "\<bar>float64_round x - x\<bar> \<le> 2 powi (float_exponent \<bar>x\<bar> - 53)"
proof (cases "x = 0")
  case True then show ?thesis by (simp add: float64_round_def)
next
  case False
  define u :: real where "u = 2 powi (float_exponent \<bar>x\<bar> - 52)"
  have u: "0 < u" by (simp add: u_def)
  define r where "r = real_of_int (round_half_even (\<bar>x\<bar> / u))"
  have fr: "float64_round x = sgn x * r * u"
    using False by (simp add: float64_round_def Let_def u_def r_def)
  have "\<bar>r - \<bar>x\<bar> / u\<bar> \<le> 1 / 2" unfolding r_def by (rule round_half_even_error)
  then have "\<bar>r - \<bar>x\<bar> / u\<bar> * u \<le> 1 / 2 * u" using u by (intro mult_right_mono) simp_all
  moreover have "\<bar>r - \<bar>x\<bar> / u\<bar> * u = \<bar>r * u - \<bar>x\<bar>\<bar>"
  proof -
    have "\<bar>r - \<bar>x\<bar> / u\<bar> * u = \<bar>(r - \<bar>x\<bar> / u) * u\<bar>" using u by (simp add: abs_mult)
    also have "(r - \<bar>x\<bar> / u) * u = r * u - \<bar>x\<bar>" using u by (simp add: left_diff_distrib)
    finally show ?thesis .
  qed
  moreover have "\<bar>sgn x * r * u - x\<bar> = \<bar>r * u - \<bar>x\<bar>\<bar>"
    using False by (cases "0 < x") (simp_all add: sgn_if)
  moreover have "1 / 2 * u = 2 powi (float_exponent \<bar>x\<bar> - 53)"
    by (simp add: u_def power_int_diff)
  ultimately show ?thesis unfolding fr by simp
qed

lemma float64_round_rel_error:
  assumes "0 \<le> x"
  shows "\<bar>float64_round x - x\<bar> \<le> x * (1 / 2 ^ 53)"
proof (cases "x = 0")
  case True then show ?thesis by (simp add: float64_round_def)
next
  case False
  then have x: "0 < x" using assms by simp
  have "\<bar>float64_round x - x\<bar> \<le> 2 powi (float_exponent \<bar>x\<bar> - 53)"
    by (rule float64_round_error)
  also have "\<dots> = 2 powi (float_exponent x) * (1 / 2 ^ 53)"
    using x by (simp add: power_int_diff)
  also have "\<dots> \<le> x * (1 / 2 ^ 53)"
    using float_exponent_bounds[OF x] by (intro mult_right_mono) simp_all
  finally show ?thesis .
qed

lemma cube_bounds:
  assumes "0 \<le> (e::real)" "e \<le> 1 / 4"
  shows "(1 + e) * (1 + e) * (1 + e) \<le> 1 + 4 * e" and "1 - 4 * e \<le> (1 - e) * (1 - e) * (1 - e)"
proof -
  have e2: "e * e \<le> e * (1 / 4)" using assms by (intro mult_left_mono) simp_all
  have e3: "e * e * e \<le> e * (1 / 4) * (1 / 4)"
    using assms e2 by (intro mult_mono) simp_all
  have "(1 + e) * (1 + e) * (1 + e) = 1 + 3 * e + 3 * (e * e) + e * e * e" by (simp add: algebra_simps)
  then show "(1 + e) * (1 + e) * (1 + e) \<le> 1 + 4 * e" using e2 e3 assms by linarith
  have "0 \<le> e * e" using assms by simp
  moreover have "(1 - e) * (1 - e) * (1 - e) = 1 - 3 * e + 3 * (e * e) - e * e * e" by (simp add: algebra_simps)
  ultimately show "1 - 4 * e \<le> (1 - e) * (1 - e) * (1 - e)" using e3 e2 assms by linarith
qed

lemma three_roundings:
  fixes n q e a qf p :: real
  assumes n: "0 \<le> n" and q: "0 \<le> q" and e: "0 \<le> e" "e \<le> 1 / 4"
    and a: "\<bar>a - n\<bar> \<le> n * e" and qf: "\<bar>qf - q\<bar> \<le> q * e"
    and p: "\<bar>p - a * qf\<bar> \<le> a * qf * e"
  shows "\<bar>p - n * q\<bar> \<le> 4 * (n * q) * e"
proof -
  have a1: "n * (1 - e) \<le> a" "a \<le> n * (1 + e)" using a by (simp_all add: algebra_simps abs_le_iff)
  have q1: "q * (1 - e) \<le> qf" "qf \<le> q * (1 + e)" using qf by (simp_all add: algebra_simps abs_le_iff)
  have e1: "0 \<le> 1 - e" using e by simp
  have a0: "0 \<le> a" using a1(1) n e1 by (meson mult_nonneg_nonneg order_trans)
  have q0: "0 \<le> qf" using q1(1) q e1 by (meson mult_nonneg_nonneg order_trans)
  have up: "a * qf \<le> (n * (1 + e)) * (q * (1 + e))"
    using a1(2) q1(2) a0 q0 by (intro mult_mono) simp_all
  have qe: "0 \<le> q * (1 - e)" using q e1 by (rule mult_nonneg_nonneg)
  have lo: "(n * (1 - e)) * (q * (1 - e)) \<le> a * qf"
    by (rule mult_mono[OF a1(1) q1(1) a0 qe])
  have p1: "a * qf * (1 - e) \<le> p" "p \<le> a * qf * (1 + e)"
    using p by (simp_all add: algebra_simps abs_le_iff)
  have "p \<le> (n * (1 + e)) * (q * (1 + e)) * (1 + e)"
    using p1(2) up e by (meson add_nonneg_nonneg mult_right_mono order_trans zero_le_one)
  also have "\<dots> = (n * q) * ((1 + e) * (1 + e) * (1 + e))" by (simp add: algebra_simps)
  also have "\<dots> \<le> (n * q) * (1 + 4 * e)"
    using cube_bounds(1)[OF e] n q by (intro mult_left_mono) simp_all
  finally have U: "p \<le> n * q + 4 * (n * q) * e" by (simp add: algebra_simps)
  have "(n * q) * (1 - 4 * e) \<le> (n * q) * ((1 - e) * (1 - e) * (1 - e))"
    using cube_bounds(2)[OF e] n q by (intro mult_left_mono) simp_all
  also have "\<dots> = (n * (1 - e)) * (q * (1 - e)) * (1 - e)" by (simp add: algebra_simps)
  also have "\<dots> \<le> a * qf * (1 - e)" using lo e1 by (intro mult_right_mono)
  also have "\<dots> \<le> p" by (rule p1(1))
  finally have L: "n * q - 4 * (n * q) * e \<le> p" by (simp add: algebra_simps)
  show ?thesis using U L by (simp add: abs_le_iff)
qed

lemma new_length_floor:
  assumes r1: "0 < r1" and r2: "0 < r2" and small: "int n * r2 < 2 ^ 51"
  shows "new_length n r1 r2 = (int n * r2) div r1
       \<or> (r1 dvd int n * r2 \<and> new_length n r1 r2 = (int n * r2) div r1 - 1)"
proof -
  define R1 where "R1 = real_of_int r1"
  define X where "X = int n * r2"
  define q where "q = real_of_int r2 / R1"
  define a where "a = float64_round (real n)"
  define qf where "qf = float64_round q"
  define p where "p = float64_round (a * qf)"
  define k where "k = X div r1"
  have R1: "0 < R1" using r1 by (simp add: R1_def)
  have q0: "0 \<le> q" using r1 r2 by (simp add: q_def R1_def)
  have a0: "0 \<le> a" unfolding a_def by (rule float64_round_nonneg) simp
  have qf0: "0 \<le> qf" unfolding qf_def by (rule float64_round_nonneg[OF q0])
  have pr0: "0 \<le> a * qf" using a0 qf0 by (rule mult_nonneg_nonneg)
  have p0: "0 \<le> p" unfolding p_def by (rule float64_round_nonneg[OF pr0])
  have nl: "new_length n r1 r2 = \<lfloor>p\<rfloor>"
    using p0 by (simp add: new_length_def Let_def trunc_def p_def a_def qf_def q_def R1_def)
  have X0: "0 \<le> X" using r2 by (simp add: X_def)
  have nq: "real n * q = real_of_int X / R1" by (simp add: q_def X_def)
  have "\<bar>p - real n * q\<bar> \<le> 4 * (real n * q) * (1 / 2 ^ 53)"
  proof (rule three_roundings)
    show "0 \<le> real n" by simp
    show "0 \<le> q" by (rule q0)
    show "(0::real) \<le> 1 / 2 ^ 53" "(1::real) / 2 ^ 53 \<le> 1 / 4" by simp_all
    show "\<bar>a - real n\<bar> \<le> real n * (1 / 2 ^ 53)"
      unfolding a_def by (rule float64_round_rel_error) simp
    show "\<bar>qf - q\<bar> \<le> q * (1 / 2 ^ 53)"
      unfolding qf_def by (rule float64_round_rel_error[OF q0])
    show "\<bar>p - a * qf\<bar> \<le> a * qf * (1 / 2 ^ 53)"
      unfolding p_def by (rule float64_round_rel_error[OF pr0])
  qed
  then have d: "\<bar>p - real_of_int X / R1\<bar> \<le> 4 * (real_of_int X / R1) * (1 / 2 ^ 53)"
    unfolding nq .
  have "real_of_int X < 2 ^ 51" using small unfolding X_def
    by (metis of_int_less_iff of_int_numeral of_int_power)
  then have "4 * real_of_int X * (1 / 2 ^ 53) < 1" by simp
  then have "4 * real_of_int X * (1 / 2 ^ 53) / R1 < 1 / R1"
    using R1 by (rule divide_strict_right_mono)
  moreover have "4 * (real_of_int X / R1) * (1 / 2 ^ 53) = 4 * real_of_int X * (1 / 2 ^ 53) / R1"
    by simp
  ultimately have "\<bar>p - real_of_int X / R1\<bar> < 1 / R1" using d by linarith
  then have "\<bar>p - real_of_int X / R1\<bar> * R1 < 1 / R1 * R1"
    using R1 by (rule mult_strict_right_mono)
  moreover have "\<bar>p - real_of_int X / R1\<bar> * R1 = \<bar>p * R1 - real_of_int X\<bar>"
  proof -
    have "\<bar>p - real_of_int X / R1\<bar> * R1 = \<bar>(p - real_of_int X / R1) * R1\<bar>"
      using R1 by (simp add: abs_mult)
    also have "(p - real_of_int X / R1) * R1 = p * R1 - real_of_int X"
      using R1 by (simp add: left_diff_distrib)
    finally show ?thesis .
  qed
  ultimately have close: "real_of_int X - 1 < p * R1" "p * R1 < real_of_int X + 1"
    using R1 by (simp_all add: abs_less_iff)
  define rm where "rm = X mod r1"
  have Xk: "X = k * r1 + rm" by (simp add: k_def rm_def)
  have rm: "0 \<le> rm" "rm < r1" using r1 by (simp_all add: rm_def)
  have XkR: "real_of_int X = real_of_int k * R1 + real_of_int rm"
    unfolding R1_def using Xk by (metis of_int_add of_int_mult)
  have up: "p < real_of_int k + 1"
  proof -
    have "real_of_int rm + 1 \<le> R1" unfolding R1_def using rm(2) by linarith
    then have "p * R1 < real_of_int k * R1 + R1" using close(2) XkR by linarith
    then have "p * R1 < (real_of_int k + 1) * R1" by (simp add: algebra_simps)
    then show ?thesis using R1 by (simp only: mult_less_cancel_right_pos)
  qed
  have low: "real_of_int k - 1 < p"
  proof -
    have "1 \<le> R1" unfolding R1_def using r1 by linarith
    then have "real_of_int k * R1 - R1 < p * R1" using close(1) XkR rm(1) by linarith
    then have "(real_of_int k - 1) * R1 < p * R1" by (simp add: algebra_simps)
    then show ?thesis using R1 by (simp only: mult_less_cancel_right_pos)
  qed
  show ?thesis
  proof (cases "rm = 0")
    case True
    then have dv: "r1 dvd int n * r2" using rm_def X_def by (simp add: dvd_eq_mod_eq_0)
    show ?thesis
    proof (cases "real_of_int k \<le> p")
      case True
      then have "\<lfloor>p\<rfloor> = k" using up by (intro floor_unique) simp_all
      then show ?thesis using nl by (simp add: k_def X_def)
    next
      case False
      then have "\<lfloor>p\<rfloor> = k - 1" using low by (intro floor_unique) simp_all
      then show ?thesis using nl dv by (simp add: k_def X_def)
    qed
  next
    case False
    then have "1 \<le> rm" using rm(1) by simp
    then have "real_of_int k * R1 \<le> real_of_int X - 1" using XkR by simp
    then have "real_of_int k * R1 < p * R1" using close(1) by linarith
    then have "real_of_int k < p" using R1 by (simp only: mult_less_cancel_right_pos)
    then have "\<lfloor>p\<rfloor> = k" using up by (intro floor_unique) simp_all
    then show ?thesis using nl by (simp add: k_def X_def)
  qed
qed

text \<open>
  Claim C1, as the code has it. With equal rates the input is returned unchanged. For
  positive rates that differ and an input that is not empty, \<open>_resample_audio\<close>
  returns an array with the columns of the input whose length is
  \<open>int(len(x) * (r2 / r1))\<close>, the double product truncated towards zero. When
  \<open>len(x) * r2 < 2 ^ 51\<close> that length is \<open>len(x) * r2 // r1\<close>, or one less
  where r1 divides \<open>len(x) * r2\<close>: it is never rounded up.
\<close>

theorem resample_length_law:
  "resample_audio a r r = Inr a
   \<and> (0 < r1 \<and> 0 < r2 \<and> r1 \<noteq> r2 \<and> 0 < len a \<longrightarrow>
        (\<exists>y. resample_audio a r1 r2 = Inr y
             \<and> ncols y = ncols a
             \<and> int (len y) = trunc (float64_round (float64_round (real (len a))
                                      * float64_round (real_of_int r2 / real_of_int r1)))
             \<and> (int (len a) * r2 < 2 ^ 51 \<longrightarrow>
                   int (len y) = (int (len a) * r2) div r1
                 \<or> (r1 dvd int (len a) * r2
                     \<and> int (len y) = (int (len a) * r2) div r1 - 1))))"
proof (intro conjI impI)
  show "resample_audio a r r = Inr a" by (simp add: resample_audio_def)
next
  assume h: "0 < r1 \<and> 0 < r2 \<and> r1 \<noteq> r2 \<and> 0 < len a"
  define m where "m = new_length (len a) r1 r2"
  have m0: "0 \<le> m" using h by (simp add: m_def new_length_nonneg)
  have mt: "trunc (float64_round (float64_round (real (len a))
                                      * float64_round (real_of_int r2 / real_of_int r1))) = m"
    by (simp add: m_def new_length_def)
  have fl: "int (len a) * r2 < 2 ^ 51 \<longrightarrow>
              m = (int (len a) * r2) div r1
            \<or> (r1 dvd int (len a) * r2 \<and> m = (int (len a) * r2) div r1 - 1)"
    unfolding m_def using h new_length_floor[of r1 r2 "len a"] by blast
  have "\<exists>y. resample_audio a r1 r2 = Inr y \<and> ncols y = ncols a \<and> int (len y) = m"
  proof (cases "ncols a")
    case None
    have "resample_audio a r1 r2 =
          Inr \<lparr>ncols = None, flat = resample_channel (flat a) (linspace (len a) (nat m))\<rparr>"
      unfolding m_def using h m0 None by (intro resample_audio_1d) (simp_all add: m_def)
    moreover have "int (len \<lparr>ncols = None, flat = resample_channel (flat a) (linspace (len a) (nat m))\<rparr>) = m"
      using m0 by (simp add: len_def length_resample_channel length_linspace)
    ultimately show ?thesis using None by simp
  next
    case (Some c)
    have c: "0 < c" using h Some by (cases "c = 0") (simp_all add: len_def)
    let ?f = "\<lambda>i. map (\<lambda>col. col ! i)
                 (map (\<lambda>channel. resample_channel (map (\<lambda>row. row ! channel) (rows c (flat a)))
                                   (linspace (len a) (nat m))) [0..<c])"
    have l: "length (concat (map ?f [0..<nat m])) = nat m * c"
      by (rule length_concat_const) simp
    have "resample_audio a r1 r2 = Inr \<lparr>ncols = Some c, flat = concat (map ?f [0..<nat m])\<rparr>"
      unfolding m_def using h m0 Some by (intro resample_audio_2d) (simp_all add: m_def)
    moreover have "int (len \<lparr>ncols = Some c, flat = concat (map ?f [0..<nat m])\<rparr>) = m"
      using m0 c l by (simp add: len_def)
    ultimately show ?thesis using Some by simp
  qed
  then obtain y where y: "resample_audio a r1 r2 = Inr y" "ncols y = ncols a" "int (len y) = m"
    by blast
  show "\<exists>y. resample_audio a r1 r2 = Inr y
             \<and> ncols y = ncols a
             \<and> int (len y) = trunc (float64_round (float64_round (real (len a))
                                      * float64_round (real_of_int r2 / real_of_int r1)))
             \<and> (int (len a) * r2 < 2 ^ 51 \<longrightarrow>
                   int (len y) = (int (len a) * r2) div r1
                 \<or> (r1 dvd int (len a) * r2
                     \<and> int (len y) = (int (len a) * r2) div r1 - 1))"
    unfolding mt using y fl by auto
qed

theorem resample_length_law_witness:
  "resample_audio \<lparr>ncols = None, flat = [1, 2, 3, 4, 5]\<rparr> 4 4
     = Inr \<lparr>ncols = None, flat = [1, 2, 3, 4, 5]\<rparr>
   \<and> (\<exists>y. resample_audio \<lparr>ncols = None, flat = [1, 2, 3, 4, 5]\<rparr> 4 3 = Inr y
          \<and> ncols y = None \<and> int (len y) = 3)"
proof -
  have t: "trunc (float64_round (float64_round (real (5::nat)) * float64_round (real_of_int 3 / real_of_int 4))) = 3"
    by code_simp
  have l: "len \<lparr>ncols = None, flat = [1, 2, 3, 4, 5 :: 16 word]\<rparr> = 5"
    by (simp add: len_def)
  show ?thesis
    using resample_length_law [of "\<lparr>ncols = None, flat = [1, 2, 3, 4, 5]\<rparr>" 4 4 3]
    unfolding l t by auto
qed

text \<open>
  Five samples from rate 4 to rate 3: \<open>int(5 * 0.75) = 3\<close> samples come back, where
  rounding 3.75 gives 4.
\<close>

theorem resample_length_counterexample:
  "resample_audio \<lparr>ncols = None, flat = [1, 2, 3, 4, 5]\<rparr> 4 3
     = Inr \<lparr>ncols = None, flat = [1, 3, 5]\<rparr>
   \<and> len \<lparr>ncols = None, flat = [1, 3, 5 :: 16 word]\<rparr> = 3
   \<and> round_half_even (real (len \<lparr>ncols = None, flat = [1, 2, 3, 4, 5 :: 16 word]\<rparr>) * 3 / 4) = 4"
  by code_simp

text \<open>
  The double product can fall below an exact integer quotient: \<open>49 * (1 / 49)\<close> is
  \<open>0.9999999999999999\<close>.
\<close>

lemma new_length_below_quotient: "new_length 49 49 1 = 0 \<and> (49 * 1) div 49 = (1::int)"
  by code_simp

section \<open>Properties of the soft mask\<close>

lemma round_half_even_mono: "a \<le> b \<Longrightarrow> round_half_even a \<le> round_half_even b"
proof -
  assume ab: "a \<le> b"
  have fl: "\<lfloor>a\<rfloor> \<le> \<lfloor>b\<rfloor>" using ab by (rule floor_mono)
  show ?thesis
  proof (cases "\<lfloor>a\<rfloor> = \<lfloor>b\<rfloor>")
    case True
    then have "a - of_int \<lfloor>a\<rfloor> \<le> b - of_int \<lfloor>b\<rfloor>" using ab by simp
    then show ?thesis using True by (auto simp: round_half_even_def Let_def)
  next
    case False
    then have "\<lfloor>a\<rfloor> + 1 \<le> \<lfloor>b\<rfloor>" using fl by simp
    moreover have "round_half_even a \<le> \<lfloor>a\<rfloor> + 1" by (auto simp: round_half_even_def Let_def)
    moreover have "\<lfloor>b\<rfloor> \<le> round_half_even b" by (auto simp: round_half_even_def Let_def)
    ultimately show ?thesis by linarith
  qed
qed

lemma round_half_even_of_int: "round_half_even (of_int k) = k"
  by (simp add: round_half_even_def)

lemma float64_round_pos_eq:
  "0 < x \<Longrightarrow> float64_round x
     = real_of_int (round_half_even (x / 2 powi (float_exponent x - 52))) * 2 powi (float_exponent x - 52)"
  by (simp add: float64_round_def Let_def)

lemma float64_round_pos_bounds:
  assumes x: "0 < x"
  shows "2 powi (float_exponent x) \<le> float64_round x"
    and "float64_round x \<le> 2 powi (float_exponent x + 1)"
proof -
  define e where "e = float_exponent x"
  define u :: real where "u = 2 powi (e - 52)"
  have u: "0 < u" by (simp add: u_def)
  have b: "2 powi e \<le> x" "x < 2 powi (e + 1)" using float_exponent_bounds[OF x] by (simp_all add: e_def)
  have ue: "2 powi e = 2 ^ 52 * u" by (simp add: u_def power_int_diff)
  have ue1: "2 powi (e + 1) = 2 ^ 53 * u" by (simp add: u_def power_int_diff power_int_add)
  have lo: "2 ^ 52 \<le> x / u" using b(1) u unfolding ue by (simp add: pos_le_divide_eq)
  have hi: "x / u < 2 ^ 53" using b(2) u unfolding ue1 by (simp add: pos_divide_less_eq)
  have "round_half_even (of_int (2 ^ 52)) \<le> round_half_even (x / u)"
    using lo by (intro round_half_even_mono) simp
  then have rl: "2 ^ 52 \<le> round_half_even (x / u)" by (simp only: round_half_even_of_int)
  have "round_half_even (x / u) \<le> round_half_even (of_int (2 ^ 53))"
    using hi by (intro round_half_even_mono) simp
  then have rh: "round_half_even (x / u) \<le> 2 ^ 53" by (simp only: round_half_even_of_int)
  have eq: "float64_round x = real_of_int (round_half_even (x / u)) * u"
    using float64_round_pos_eq[OF x] by (simp add: u_def e_def)
  have "real_of_int (2 ^ 52) \<le> real_of_int (round_half_even (x / u))" using rl by (rule of_int_le_iff[THEN iffD2])
  then have "2 ^ 52 * u \<le> real_of_int (round_half_even (x / u)) * u"
    using u by (intro mult_right_mono) simp_all
  then show "2 powi (float_exponent x) \<le> float64_round x" using eq ue by (simp add: e_def)
  have "real_of_int (round_half_even (x / u)) \<le> real_of_int (2 ^ 53)" using rh by (rule of_int_le_iff[THEN iffD2])
  then have "real_of_int (round_half_even (x / u)) * u \<le> 2 ^ 53 * u"
    using u by (intro mult_right_mono) simp_all
  then show "float64_round x \<le> 2 powi (float_exponent x + 1)" using eq ue1 by (simp add: e_def)
qed

lemma float64_round_pos: "0 < x \<Longrightarrow> 0 < float64_round x"
  using float64_round_pos_bounds(1)[of x]
  by (meson less_le_trans zero_less_numeral zero_less_power_int)

lemma float64_round_minus: "float64_round (- x) = - float64_round x"
  by (simp add: float64_round_def Let_def sgn_if)

lemma float64_round_0: "float64_round 0 = 0"
  by (simp add: float64_round_def)

lemma float64_round_eq_0_iff: "float64_round x = 0 \<longleftrightarrow> x = 0"
proof
  assume z: "float64_round x = 0"
  show "x = 0"
  proof (rule ccontr)
    assume "x \<noteq> 0"
    then consider "0 < x" | "0 < - x" by linarith
    then show False
    proof cases
      case 1 then show False using float64_round_pos[of x] z by simp
    next
      case 2 then show False using float64_round_pos[of "- x"] z by (simp add: float64_round_minus)
    qed
  qed
qed (simp add: float64_round_def)

lemma float_exponent_mono:
  assumes "0 < x" "x \<le> y"
  shows "float_exponent x \<le> float_exponent y"
proof -
  have y: "0 < y" using assms by simp
  have "(2::real) powi float_exponent x \<le> x" using float_exponent_bounds[OF assms(1)] by simp
  also have "x \<le> y" by fact
  also have "y < 2 powi (float_exponent y + 1)" using float_exponent_bounds[OF y] by simp
  finally have lt: "(2::real) powi float_exponent x < 2 powi (float_exponent y + 1)" .
  show ?thesis
  proof (rule ccontr)
    assume "\<not> float_exponent x \<le> float_exponent y"
    then have "float_exponent y + 1 \<le> float_exponent x" by simp
    then have "(2::real) powi (float_exponent y + 1) \<le> 2 powi float_exponent x"
      by (intro power_int_increasing) simp_all
    then show False using lt by linarith
  qed
qed

lemma float64_round_mono_pos:
  assumes x: "0 < x" and xy: "x \<le> y"
  shows "float64_round x \<le> float64_round y"
proof (cases "float_exponent x = float_exponent y")
  case True
  have y: "0 < y" using x xy by simp
  define u :: real where "u = 2 powi (float_exponent x - 52)"
  have u: "0 < u" by (simp add: u_def)
  have "x / u \<le> y / u" using xy u by (simp add: divide_right_mono)
  then have "round_half_even (x / u) \<le> round_half_even (y / u)" by (rule round_half_even_mono)
  then have "real_of_int (round_half_even (x / u)) * u \<le> real_of_int (round_half_even (y / u)) * u"
    using u by (intro mult_right_mono) simp_all
  then show ?thesis
    using float64_round_pos_eq[OF x] float64_round_pos_eq[OF y] True by (simp add: u_def)
next
  case False
  have y: "0 < y" using x xy by simp
  have "float_exponent x + 1 \<le> float_exponent y"
    using False float_exponent_mono[OF x xy] by simp
  then have "(2::real) powi (float_exponent x + 1) \<le> 2 powi float_exponent y"
    by (intro power_int_increasing) simp_all
  then show ?thesis
    using float64_round_pos_bounds(2)[OF x] float64_round_pos_bounds(1)[OF y] by linarith
qed

lemma float64_round_mono:
  assumes "x \<le> y"
  shows "float64_round x \<le> float64_round y"
proof -
  consider "0 < x" | "x \<le> 0" "0 \<le> y" | "y < 0" by linarith
  then show ?thesis
  proof cases
    case 1 then show ?thesis using assms by (rule float64_round_mono_pos)
  next
    case 2
    have "0 \<le> float64_round (- x)" using 2(1) by (intro float64_round_nonneg) simp
    then have "float64_round x \<le> 0" by (simp add: float64_round_minus)
    moreover have "0 \<le> float64_round y" using 2(2) by (rule float64_round_nonneg)
    ultimately show ?thesis by linarith
  next
    case 3
    then have "0 < - y" "- y \<le> - x" using assms by simp_all
    then have "float64_round (- y) \<le> float64_round (- x)" by (rule float64_round_mono_pos)
    then show ?thesis by (simp add: float64_round_minus)
  qed
qed

lemma float64_round_small_ints:
  "float64_round 1 = 1" "float64_round (- 1) = - 1" "float64_round 5 = 5"
  "float64_round 32 = 32" "float64_round 33 = 33"
  by code_simp+

lemma float64_round_tenth: "float64_round (1 / 33) \<le> float64_round (1 / 10)" "float64_round (1 / 10) \<le> 1"
  by code_simp+

lemma exp5: "(32::real) \<le> exp 5"
proof -
  have "(2::real) \<le> exp 1" using exp_ge_add_one_self[of "1::real"] by simp
  then have "(2::real) ^ 5 \<le> exp 1 ^ 5" by (intro power_mono) simp_all
  moreover have "exp (1::real) ^ 5 = exp 5" using exp_of_nat_mult[of 5 "1::real"] by simp
  ultimately show ?thesis by simp
qed

text \<open>The rounded sigmoid is non-decreasing in the ratio.\<close>

lemma rounded_sigmoid_mono:
  assumes "r1 \<le> r2"
  shows "float64_round (1 / float64_round (1 + float64_round (exp (float64_round (- 5 * float64_round (r1 - 1))))))
       \<le> float64_round (1 / float64_round (1 + float64_round (exp (float64_round (- 5 * float64_round (r2 - 1))))))"
proof -
  define a where "a = (\<lambda>r. float64_round (r - 1))"
  define b where "b = (\<lambda>r. float64_round (- 5 * a r))"
  define c where "c = (\<lambda>r. float64_round (exp (b r)))"
  define g where "g = (\<lambda>r. float64_round (1 + c r))"
  have a: "a r1 \<le> a r2" unfolding a_def using assms by (intro float64_round_mono) simp
  have b: "b r2 \<le> b r1" unfolding b_def using a by (intro float64_round_mono) simp
  have c: "c r2 \<le> c r1" unfolding c_def using b by (intro float64_round_mono) simp
  have cpos: "0 < c r" for r unfolding c_def by (intro float64_round_pos) simp
  have g: "g r2 \<le> g r1" unfolding g_def using c by (intro float64_round_mono) simp
  have "float64_round 1 \<le> g r" for r
    unfolding g_def using cpos[of r] by (intro float64_round_mono) simp
  then have gpos: "0 < g r" for r
    using float64_round_small_ints(1) by (metis less_le_trans zero_less_one)
  have "1 / g r1 \<le> 1 / g r2" using g gpos[of r2] by (intro divide_left_mono) (simp_all add: gpos)
  then have "float64_round (1 / g r1) \<le> float64_round (1 / g r2)" by (rule float64_round_mono)
  then show ?thesis by (simp add: g_def c_def b_def a_def)
qed

text \<open>At a ratio that is not positive the rounded sigmoid is below the floor of the clip.\<close>

lemma rounded_sigmoid_low:
  assumes "r \<le> 0"
  shows "float64_round (1 / float64_round (1 + float64_round (exp (float64_round (- 5 * float64_round (r - 1))))))
       \<le> float64_round (1 / 10)"
proof -
  define a where "a = float64_round (r - 1)"
  define b where "b = float64_round (- 5 * a)"
  define c where "c = float64_round (exp b)"
  define g where "g = float64_round (1 + c)"
  have "a \<le> float64_round (- 1)" unfolding a_def using assms by (intro float64_round_mono) simp
  then have a: "a \<le> - 1" by (simp only: float64_round_small_ints)
  have "float64_round 5 \<le> b" unfolding b_def using a by (intro float64_round_mono) simp
  then have b: "5 \<le> b" by (simp only: float64_round_small_ints)
  have "exp 5 \<le> exp b" using b by simp
  then have "32 \<le> exp b" using exp5 by linarith
  then have "float64_round 32 \<le> c" unfolding c_def by (rule float64_round_mono)
  then have c: "32 \<le> c" by (simp only: float64_round_small_ints)
  have "float64_round 33 \<le> g" unfolding g_def using c by (intro float64_round_mono) simp
  then have g: "33 \<le> g" by (simp only: float64_round_small_ints)
  have "1 / g \<le> 1 / 33" using g by (intro divide_left_mono) simp_all
  then have "float64_round (1 / g) \<le> float64_round (1 / 33)" by (rule float64_round_mono)
  then have "float64_round (1 / g) \<le> float64_round (1 / 10)"
    using float64_round_tenth(1) by linarith
  then show ?thesis by (simp add: g_def c_def b_def a_def)
qed

lemma clip_mono: "x \<le> y \<Longrightarrow> clip x lo hi \<le> clip y lo hi"
  by (auto simp: clip_def min_def max_def)

lemma clip_bounds: "lo \<le> hi \<Longrightarrow> lo \<le> clip x lo hi \<and> clip x lo hi \<le> hi"
  by (auto simp: clip_def min_def max_def)

lemma clip_low: "x \<le> lo \<Longrightarrow> lo \<le> hi \<Longrightarrow> clip x lo hi = lo"
  by (auto simp: clip_def min_def max_def)

text \<open>
  What the claim says holds at every other threshold: for a threshold t other than the
  double \<open>-1e-8\<close> and energies \<open>0 \<le> e1 \<le> e2\<close>, both masks are numbers between the
  double 0.1 and 1, and the mask of e1 is at most the mask of e2.
\<close>

lemma soft_mask_elsewhere:
  assumes t: "t \<noteq> - float64_round (1 / 10 ^ 8)" and e1: "0 \<le> e1" and le: "e1 \<le> e2"
  shows "\<exists>m1 m2. create_soft_mask [Some e1, Some e2] (Some t) = [Some m1, Some m2]
                 \<and> float64_round (1 / 10) \<le> m1 \<and> m1 \<le> m2 \<and> m2 \<le> 1"
proof -
  define d where "d = float64_round (t + float64_round (1 / 10 ^ 8))"
  define s where "s = (\<lambda>r. float64_round (1 / float64_round (1 + float64_round (exp (float64_round (- 5 * float64_round (r - 1)))))))"
  define m where "m = (\<lambda>e. clip (s (float64_round (e / d))) (float64_round (1 / 10)) 1)"
  have "t + float64_round (1 / 10 ^ 8) \<noteq> 0" using t by linarith
  then have d: "d \<noteq> 0" unfolding d_def by (simp only: float64_round_eq_0_iff not_False_eq_True)
  have sm: "soft_mask (Some e) (Some t) = Some (m e)" for e
    using d unfolding soft_mask_def m_def s_def d_def by (simp add: Let_def)
  have eq: "create_soft_mask [Some e1, Some e2] (Some t) = [Some (m e1), Some (m e2)]"
    by (simp add: create_soft_mask_def sm)
  have b: "float64_round (1 / 10) \<le> m e1" "m e2 \<le> 1"
    using clip_bounds[OF float64_round_tenth(2)] by (simp_all add: m_def)
  have mono: "m e1 \<le> m e2"
  proof (cases "0 < d")
    case True
    then have "e1 / d \<le> e2 / d" using le by (simp add: divide_right_mono)
    then have "float64_round (e1 / d) \<le> float64_round (e2 / d)" by (rule float64_round_mono)
    then have "s (float64_round (e1 / d)) \<le> s (float64_round (e2 / d))"
      unfolding s_def by (rule rounded_sigmoid_mono)
    then show ?thesis unfolding m_def by (rule clip_mono)
  next
    case False
    then have neg: "d < 0" using d by simp
    have "e1 / d \<le> 0" using e1 neg by (simp add: divide_nonneg_neg)
    then have "float64_round (e1 / d) \<le> float64_round 0" by (rule float64_round_mono)
    then have "float64_round (e1 / d) \<le> 0" by (simp only: float64_round_0)
    then have "s (float64_round (e1 / d)) \<le> float64_round (1 / 10)"
      unfolding s_def by (rule rounded_sigmoid_low)
    then have "m e1 = float64_round (1 / 10)"
      unfolding m_def using float64_round_tenth(2) by (rule clip_low)
    moreover have "float64_round (1 / 10) \<le> m e2"
      using clip_bounds[OF float64_round_tenth(2)] by (simp add: m_def)
    ultimately show ?thesis by simp
  qed
  show ?thesis using eq b mono by blast
qed

text \<open>
  Claim C4, at the input where the code breaks it. The threshold is the double
  \<open>-1e-8\<close>, the one threshold at which \<open>threshold + 1e-8\<close> is zero, and the energy is
  zero: the ratio is \<open>0 / 0\<close>, and the mask that \<open>_create_soft_mask\<close> returns is NaN,
  which \<open>np.clip\<close> keeps. The claim asks for a number in [0.1, 1.0] there.
\<close>

theorem soft_mask_nan:
  "create_soft_mask [Some 0] (Some (- float64_round (1 / 10 ^ 8))) = [None]"
  by (simp add: create_soft_mask_def soft_mask_def float64_round_0)

section \<open>Properties of the normalizer\<close>

lemma normalizer_init_Inr:
  assumes "AudioNormalizer_init config = Inr self"
  shows "target_channels self = 1 \<or> target_channels self = 2"
    and "0 < target_sample_rate self"
    and "0 \<le> target_volume self" and "target_volume self \<le> 1"
  using assms
  by (auto simp: AudioNormalizer_init_def Let_def split: if_splits)

lemma int16_le_zero: "set b \<subseteq> {0} \<Longrightarrow> set (int16_le b) \<subseteq> {0}"
  by (induction b rule: int16_le.induct) (auto simp: word_cat_eq)

lemma fold_max_zero: "set xs \<subseteq> {0} \<Longrightarrow> fold max xs (0::int) = 0"
  by (induction xs) auto

lemma np_max_zero:
  assumes "set ws \<subseteq> {0}" and "ws \<noteq> []"
  shows "np_max (map (sint \<circ> abs_int16) ws) = Inr 0"
proof -
  obtain w rest where ws: "ws = w # rest" using assms(2) by (cases ws) auto
  have w: "w = 0" and rest: "set rest \<subseteq> {0}" using assms(1) ws by auto
  have "set (map (sint \<circ> abs_int16) rest) \<subseteq> {0}" using rest by (auto simp: abs_int16_def)
  then have "fold max (map (sint \<circ> abs_int16) rest) 0 = 0" by (rule fold_max_zero)
  then show ?thesis using ws w by (simp add: np_max_def abs_int16_def)
qed

text \<open>
  Claim C5, as the code has it. For a constructed normalizer and a buffer of zero bytes
  that is not empty and holds whole frames of the target channel count, the volume
  step returns the buffer itself, so an all-zero buffer of the same length, and does
  not raise: the peak is 0 and no scale factor is computed.
\<close>

theorem normalize_volume_zero_signal:
  assumes init: "AudioNormalizer_init config = Inr self"
    and zero: "set b \<subseteq> {0}"
    and ne: "b \<noteq> []"
    and frames: "2 * target_channels self dvd int (length b)"
  shows "AudioNormalizer_normalize_volume self b = Inr b"
proof -
  have ev: "even (length b)" using frames
    by (metis dvd_mult_left even_of_nat int_dvd_int_iff of_nat_numeral)
  have tc: "target_channels self = 1 \<or> target_channels self = 2"
    by (rule normalizer_init_Inr(1)[OF init])
  have dv: "nat (target_channels self) dvd length (int16_le b)"
  proof -
    from tc show ?thesis
    proof
      assume "target_channels self = 1" then show ?thesis by simp
    next
      assume t: "target_channels self = 2"
      then have "4 dvd int (length b)" using frames by simp
      then have "4 dvd length b" by presburger
      then have "2 dvd length b div 2" by presburger
      then show ?thesis using t by (simp add: length_int16_le)
    qed
  qed
  have fl: "flat (reshape_channels (int16_le b) (target_channels self)) = int16_le b"
    using dv by (intro reshape_channels_full) simp
  have "length b \<ge> 2" using ev ne by (cases b; cases "tl b") auto
  then have "int16_le b \<noteq> []" using length_int16_le[of b] by (metis div_greater_zero_iff length_greater_0_conv zero_less_numeral)
  then have mx: "np_max (map (sint \<circ> abs_int16) (int16_le b)) = Inr 0"
    using int16_le_zero[OF zero] by (intro np_max_zero)
  show ?thesis
    using ev fl mx
    by (simp add: AudioNormalizer_normalize_volume_def bytes_to_numpy_int16_even
                  numpy_to_bytes_def tobytes_int16_le)
qed

theorem normalize_volume_zero_signal_witness:
  "AudioNormalizer_normalize_volume
     \<lparr>target_sample_rate = 16000, target_channels = 1, normalize_volume = True,
      target_volume = 8 / 10\<rparr> [0, 0, 0, 0] = Inr [0, 0, 0, 0]"
  using normalize_volume_zero_signal [of
     "\<lparr>cfg_target_sample_rate = None, cfg_target_channels = None,
       cfg_normalize_volume = None, cfg_target_volume = None\<rparr>"
     "\<lparr>target_sample_rate = 16000, target_channels = 1, normalize_volume = True,
       target_volume = 8 / 10\<rparr>" "[0, 0, 0, 0]"]
  by (simp add: AudioNormalizer_init_def config_get_def)

text \<open>
  With two target channels, six zero bytes are three samples: the last one does not fill
  a frame and is dropped, so four bytes come back.
\<close>

theorem normalize_volume_partial_frame_counterexample:
  "AudioNormalizer_init
     \<lparr>cfg_target_sample_rate = None, cfg_target_channels = Some 2,
      cfg_normalize_volume = None, cfg_target_volume = None\<rparr>
     = Inr \<lparr>target_sample_rate = 16000, target_channels = 2, normalize_volume = True,
            target_volume = 8 / 10\<rparr>
   \<and> AudioNormalizer_normalize_volume
       \<lparr>target_sample_rate = 16000, target_channels = 2, normalize_volume = True,
        target_volume = 8 / 10\<rparr> [0, 0, 0, 0, 0, 0] = Inr [0, 0, 0, 0]"
  by (simp add: AudioNormalizer_init_def config_get_def AudioNormalizer_normalize_volume_def
                bytes_to_numpy_int16_def frombuffer_int16_def reshape_channels_def Let_def
                np_max_def abs_int16_def numpy_to_bytes_def tobytes_int16_def)

section \<open>Properties of the pipeline\<close>

lemma run_processors_append:
  "run_processors (ps @ qs) b kw =
     (case run_processors ps b kw of
        Inl e \<Rightarrow> Inl e
      | Inr r \<Rightarrow> run_processors qs r kw)"
  by (induction ps arbitrary: b) (simp_all split: sum.splits)

text \<open>
  Claim C6. A pipeline built from the stages s1, s2 in that order returns what s2 returns
  on the output of s1, both stages being called with the same keyword arguments; when a
  stage raises, the pipeline raises AudioProcessingError and later stages do not run. For
  any stage list, appending a stage s composes it after the pipeline of the stages before
  it, again with the same keyword arguments.
\<close>

theorem pipeline_chaining:
  "AudioPipeline_process \<lparr>processors = [s1, s2]\<rparr> b kw =
     (case process s1 b kw of
        Inl e \<Rightarrow> Inl AudioProcessingError
      | Inr r1 \<Rightarrow>
          (case process s2 r1 kw of
             Inl e \<Rightarrow> Inl AudioProcessingError
           | Inr r2 \<Rightarrow> Inr r2))
   \<and> AudioPipeline_process \<lparr>processors = ps @ [s]\<rparr> b kw =
     (case AudioPipeline_process \<lparr>processors = ps\<rparr> b kw of
        Inl e \<Rightarrow> Inl AudioProcessingError
      | Inr r \<Rightarrow>
          (case process s r kw of
             Inl e \<Rightarrow> Inl AudioProcessingError
           | Inr r' \<Rightarrow> Inr r'))"
  by (simp add: AudioPipeline_process_def run_processors_append split: sum.splits)

text \<open>
  Claim C9. A pipeline with no stages returns its input buffer unchanged, whatever the
  keyword arguments; \<open>create_pipeline\<close> on an empty name list returns the empty pipeline
  for every manager, so no name is looked up.
\<close>

theorem empty_pipeline_identity:
  "AudioPipeline_process \<lparr>processors = []\<rparr> b kw = Inr b
   \<and> create_pipeline m [] = Inr \<lparr>processors = []\<rparr>"
  by (simp add: AudioPipeline_process_def create_pipeline_def)

end
